theory Spec2Isabelle
  imports
    Complex_Main
    "HOL-Library.Sublist"
    "HOL-Library.List_Lexorder"
    "HOL-Library.Product_Lexorder"
    "HOL-Library.Multiset"
begin

section \<open>Python values used by the task tracker\<close>

text \<open>
  A Python \<open>str\<close> is a sequence of Unicode code points; \<open>len\<close> counts code points and
  comparison is lexicographic on them. Strings are therefore lists of natural numbers,
  ordered by the lexicographic order on lists.
\<close>

type_synonym pystr = "nat list"

definition ascii :: "string \<Rightarrow> pystr" where
  "ascii s = map of_char s"

text \<open>The exceptions the program can raise. \<open>ValueError\<close> carries its message.\<close>

datatype error =
    ValueError pystr
  | KeyError pystr
  | TypeError
  | JSONDecodeError

text \<open>
  What \<open>json.loads\<close> returns: an object keeps its members in document order, a later
  duplicate key overriding an earlier one on lookup.
\<close>

datatype json =
    JNull
  | JBool bool
  | JInt int
  | JFloat rat
  | JStr pystr
  | JArr "json list"
  | JObj "(pystr \<times> json) list"

text \<open>
  The parts of the Python runtime that the program calls and does not define:
  \<open>str.lower\<close>, \<open>str\<close> of a value that is not a string, \<open>int\<close> of a string,
  the clock behind \<open>datetime.now(timezone.utc).isoformat()\<close> (indexed by the number of
  earlier readings) and the identifier drawn by \<open>uuid4\<close>.
\<close>

record runtime =
  lower :: "pystr \<Rightarrow> pystr"
  repr :: "json \<Rightarrow> pystr"
  int_of_str :: "pystr \<Rightarrow> error + int"
  clock :: "nat \<Rightarrow> pystr"
  uuid4 :: pystr

definition py_str :: "runtime \<Rightarrow> json \<Rightarrow> pystr" where
  "py_str rt v = (case v of JStr s \<Rightarrow> s | _ \<Rightarrow> repr rt v)"

definition py_int :: "runtime \<Rightarrow> json \<Rightarrow> error + int" where
  "py_int rt v =
     (case v of
        JInt n \<Rightarrow> Inr n
      | JBool b \<Rightarrow> Inr (if b then 1 else 0)
      | JFloat r \<Rightarrow> Inr (if 0 \<le> r then \<lfloor>r\<rfloor> else \<lceil>r\<rceil>)
      | JStr s \<Rightarrow> int_of_str rt s
      | _ \<Rightarrow> Inl TypeError)"

definition py_bool :: "json \<Rightarrow> bool" where
  "py_bool v =
     (case v of
        JNull \<Rightarrow> False
      | JBool b \<Rightarrow> b
      | JInt n \<Rightarrow> n \<noteq> 0
      | JFloat r \<Rightarrow> r \<noteq> 0
      | JStr s \<Rightarrow> s \<noteq> []
      | JArr xs \<Rightarrow> xs \<noteq> []
      | JObj d \<Rightarrow> d \<noteq> [])"

text \<open>Lookup in a parsed object, and \<open>dict.get\<close> with a default.\<close>

definition lookup :: "(pystr \<times> json) list \<Rightarrow> pystr \<Rightarrow> json option" where
  "lookup d k = map_of (rev d) k"

definition dict_get :: "(pystr \<times> json) list \<Rightarrow> pystr \<Rightarrow> json \<Rightarrow> json" where
  "dict_get d k dflt = (case lookup d k of None \<Rightarrow> dflt | Some v \<Rightarrow> v)"

text \<open>Keys of a parsed object in the order of their first occurrence.\<close>

definition dict_keys :: "(pystr \<times> json) list \<Rightarrow> pystr list" where
  "dict_keys d = rev (remdups (rev (map fst d)))"

text \<open>
  \<open>[str(item) for item in v]\<close>: a list yields its elements, a string its characters,
  an object its keys; nothing else is iterable.
\<close>

definition str_items :: "runtime \<Rightarrow> json \<Rightarrow> error + pystr list" where
  "str_items rt v =
     (case v of
        JArr xs \<Rightarrow> Inr (map (py_str rt) xs)
      | JStr s \<Rightarrow> Inr (map (\<lambda>c. [c]) s)
      | JObj d \<Rightarrow> Inr (dict_keys d)
      | _ \<Rightarrow> Inl TypeError)"

text \<open>
  \<open>str.strip()\<close> removes leading and trailing white space, the code points for which
  \<open>str.isspace\<close> holds.
\<close>

definition isspace :: "nat \<Rightarrow> bool" where
  "isspace c \<longleftrightarrow>
     (9 \<le> c \<and> c \<le> 13) \<or> (28 \<le> c \<and> c \<le> 32) \<or> c = 133 \<or> c = 160 \<or> c = 5760 \<or>
     (8192 \<le> c \<and> c \<le> 8202) \<or> c = 8232 \<or> c = 8233 \<or> c = 8239 \<or> c = 8287 \<or>
     c = 12288"

definition strip :: "pystr \<Rightarrow> pystr" where
  "strip s = rev (dropWhile isspace (rev (dropWhile isspace s)))"

section \<open>models.py: the Task entity\<close>

record task =
  task_id :: pystr
  title :: pystr
  description :: pystr
  priority :: int
  is_done :: bool
  tags :: "pystr list"
  created_at :: pystr

text \<open>\<open>Task.__post_init__\<close>: trims the title, then validates title and priority.\<close>

definition post_init :: "task \<Rightarrow> error + task" where
  "post_init t =
     (let t' = t\<lparr>title := strip (title t)\<rparr> in
      if title t' = [] then Inl (ValueError (ascii ''title must not be empty''))
      else if \<not> (1 \<le> priority t' \<and> priority t' \<le> 5)
        then Inl (ValueError (ascii ''priority must be in range 1..5''))
      else Inr t')"

text \<open>\<open>Task.to_dict\<close>.\<close>

definition to_dict :: "task \<Rightarrow> (pystr \<times> json) list" where
  "to_dict t =
     [(ascii ''id'', JStr (task_id t)),
      (ascii ''title'', JStr (title t)),
      (ascii ''description'', JStr (description t)),
      (ascii ''priority'', JInt (priority t)),
      (ascii ''done'', JBool (is_done t)),
      (ascii ''tags'', JArr (map JStr (tags t))),
      (ascii ''created_at'', JStr (created_at t))]"

text \<open>
  \<open>Task.from_dict\<close>. The arguments of the constructor call are evaluated in the order
  they are written, so the first failing one decides the error; \<open>now\<close> is the clock
  reading taken for the default of \<open>created_at\<close>. Subscripting anything but an object
  is a \<open>TypeError\<close>.
\<close>

definition from_dict :: "runtime \<Rightarrow> pystr \<Rightarrow> json \<Rightarrow> error + task" where
  "from_dict rt now raw =
     (case raw of
        JObj d \<Rightarrow>
          (case lookup d (ascii ''id'') of
             None \<Rightarrow> Inl (KeyError (ascii ''id''))
           | Some i \<Rightarrow>
          (case lookup d (ascii ''title'') of
             None \<Rightarrow> Inl (KeyError (ascii ''title''))
           | Some ti \<Rightarrow>
          (case py_int rt (dict_get d (ascii ''priority'') (JInt 3)) of
             Inl e \<Rightarrow> Inl e
           | Inr p \<Rightarrow>
          (case str_items rt (dict_get d (ascii ''tags'') (JArr [])) of
             Inl e \<Rightarrow> Inl e
           | Inr tg \<Rightarrow>
             post_init
               \<lparr>task_id = py_str rt i,
                title = py_str rt ti,
                description = py_str rt (dict_get d (ascii ''description'') (JStr [])),
                priority = p,
                is_done = py_bool (dict_get d (ascii ''done'') (JBool False)),
                tags = tg,
                created_at = py_str rt (dict_get d (ascii ''created_at'') (JStr now))\<rparr>))))
      | _ \<Rightarrow> Inl TypeError)"

section \<open>storage.py: the task store\<close>

text \<open>
  The backing file is absent (\<open>None\<close>) or holds text, which either parses as a JSON
  document or does not.
\<close>

datatype content = Malformed | Doc json

type_synonym store = "content option"

text \<open>The list comprehension of \<open>load_tasks\<close>: elements are decoded in order.\<close>

fun decode_items :: "runtime \<Rightarrow> nat \<Rightarrow> json list \<Rightarrow> error + task list" where
  "decode_items rt i [] = Inr []"
| "decode_items rt i (x # xs) =
     (case from_dict rt (clock rt i) x of
        Inl e \<Rightarrow> Inl e
      | Inr t \<Rightarrow>
          (case decode_items rt (Suc i) xs of
             Inl e \<Rightarrow> Inl e
           | Inr ts \<Rightarrow> Inr (t # ts)))"

definition load_tasks :: "runtime \<Rightarrow> store \<Rightarrow> error + task list" where
  "load_tasks rt st =
     (case st of
        None \<Rightarrow> Inr []
      | Some Malformed \<Rightarrow> Inl JSONDecodeError
      | Some (Doc (JArr items)) \<Rightarrow> decode_items rt 0 items
      | Some (Doc _) \<Rightarrow> Inl (ValueError (ascii ''storage file must contain JSON list'')))"

definition save_tasks :: "task list \<Rightarrow> store" where
  "save_tasks tasks = Some (Doc (JArr (map (\<lambda>t. JObj (to_dict t)) tasks)))"

text \<open>
  A concrete runtime for evaluating the definitions: lower-casing of the ASCII and the
  basic Russian capitals, a fixed clock and identifier.
\<close>

definition lower_cp :: "nat \<Rightarrow> nat" where
  "lower_cp c =
     (if (65 \<le> c \<and> c \<le> 90) \<or> (1040 \<le> c \<and> c \<le> 1071) then c + 32 else c)"

definition sample_runtime :: runtime where
  "sample_runtime =
     \<lparr>lower = map lower_cp,
      repr = (\<lambda>_. ascii ''?''),
      int_of_str = (\<lambda>_. Inl (ValueError (ascii ''invalid literal for int()''))),
      clock = (\<lambda>_. ascii ''2024-01-01T00:00:00+00:00''),
      uuid4 = ascii ''0000''\<rparr>"

text \<open>A document is an array exactly when it is built with \<open>JArr\<close>.\<close>

fun is_array :: "json \<Rightarrow> bool" where
  "is_array (JArr _) = True"
| "is_array _ = False"

section \<open>service.py: the task service\<close>

text \<open>
  Every operation takes the store and returns the store it leaves behind together with
  its result or the exception it raised; an exception does not undo a write.
\<close>

type_synonym 'a outcome = "store \<times> (error + 'a)"



text \<open>
  \<open>list_tasks\<close>. A query that is \<open>None\<close> or empty is falsy and filters nothing;
  \<open>lowered in title.lower()\<close> is the contiguous-sublist test; \<open>sorted\<close> is a stable
  sort on the key \<open>(-priority, created_at)\<close>, tuples compared lexicographically.
\<close>

definition list_tasks ::
  "runtime \<Rightarrow> store \<Rightarrow> bool \<Rightarrow> pystr option \<Rightarrow> task list outcome" where
  "list_tasks rt st include_done query =
     (case load_tasks rt st of
        Inl e \<Rightarrow> (st, Inl e)
      | Inr tasks \<Rightarrow>
          (let tasks1 = (if \<not> include_done then filter (\<lambda>t. \<not> is_done t) tasks else tasks);
               tasks2 =
                 (case query of
                    None \<Rightarrow> tasks1
                  | Some q \<Rightarrow>
                      if q = [] then tasks1
                      else (let lowered = lower rt q
                            in filter (\<lambda>t. sublist lowered (lower rt (title t))) tasks1))
           in (st, Inr (sort_key (\<lambda>item. (- priority item, created_at item)) tasks2))))"

text \<open>The loop of \<open>complete_task\<close>: it stops at the first task with the given id.\<close>

fun mark_first :: "pystr \<Rightarrow> task list \<Rightarrow> task list \<times> bool" where
  "mark_first tid [] = ([], False)"
| "mark_first tid (t # ts) =
     (if task_id t = tid then (t\<lparr>is_done := True\<rparr> # ts, True)
      else (let (ts', changed) = mark_first tid ts in (t # ts', changed)))"

definition complete_task :: "runtime \<Rightarrow> store \<Rightarrow> pystr \<Rightarrow> bool outcome" where
  "complete_task rt st tid =
     (case load_tasks rt st of
        Inl e \<Rightarrow> (st, Inl e)
      | Inr tasks \<Rightarrow>
          (let (tasks', changed) = mark_first tid tasks
           in if changed then (save_tasks tasks', Inr True) else (st, Inr False)))"


text \<open>
  Floating-point arithmetic is not interpreted: the operations \<open>stats\<close> and
  \<open>completion_rate\<close> apply are parameters. \<open>true_div\<close> is \<open>/\<close> on two integers,
  \<open>times_int\<close> is \<open>*\<close> of a float and an integer, \<open>round_to\<close> is \<open>round(x, n)\<close> and
  \<open>fzero\<close> is the literal \<open>0.0\<close>.
\<close>

record 'f float_ops =
  fzero :: 'f
  true_div :: "int \<Rightarrow> int \<Rightarrow> 'f"
  times_int :: "'f \<Rightarrow> int \<Rightarrow> 'f"
  round_to :: "'f \<Rightarrow> int \<Rightarrow> 'f"

record 'f stats_result =
  stats_total :: int
  stats_done :: int
  stats_open :: int
  stats_completion_rate :: 'f

definition stats :: "runtime \<Rightarrow> 'f float_ops \<Rightarrow> store \<Rightarrow> 'f stats_result outcome" where
  "stats rt fl st =
     (case load_tasks rt st of
        Inl e \<Rightarrow> (st, Inl e)
      | Inr tasks \<Rightarrow>
          (let total = int (length tasks);
               done = sum_list (map (\<lambda>t. 1) (filter is_done tasks));
               open_count = total - done;
               rate = (if total \<noteq> 0
                       then round_to fl (times_int fl (true_div fl done total) 100) 2
                       else fzero fl)
           in (st, Inr \<lparr>stats_total = total, stats_done = done, stats_open = open_count,
                         stats_completion_rate = rate\<rparr>)))"

section \<open>analytics.py\<close>

definition completion_rate :: "'f float_ops \<Rightarrow> task list \<Rightarrow> 'f" where
  "completion_rate fl task_list =
     (if task_list = [] then fzero fl
      else (let done = sum_list (map (\<lambda>t. 1) (filter is_done task_list))
            in round_to fl (times_int fl (true_div fl done (int (length task_list))) 100) 2))"

text \<open>The character class \<open>[A-Za-z\<close>U+0410\<open>-\<close>U+042F U+0430\<open>-\<close>U+044F\<open>0-9]\<close> of the word pattern.\<close>

definition is_word :: "nat \<Rightarrow> bool" where
  "is_word c \<longleftrightarrow>
     (65 \<le> c \<and> c \<le> 90) \<or> (97 \<le> c \<and> c \<le> 122) \<or> (1040 \<le> c \<and> c \<le> 1071) \<or>
     (1072 \<le> c \<and> c \<le> 1103) \<or> (48 \<le> c \<and> c \<le> 57)"

text \<open>
  \<open>_WORD_RE.findall\<close>: scanning from the left, a code point of the class starts a
  greedy match that takes the whole run; any other code point is skipped.
\<close>

function findall :: "pystr \<Rightarrow> pystr list" where
  "findall [] = []"
| "findall (c # cs) =
     (if is_word c then takeWhile is_word (c # cs) # findall (dropWhile is_word cs)
      else findall cs)"
  by pat_completeness auto
termination
  by (relation "measure length") (auto simp: less_Suc_eq_le length_dropWhile_le)

text \<open>
  The stop words: a, an, and, the, to, of, in, on, for, and the Russian words given
  by their code points (U+0438; U+0432; U+043D U+0430; U+0441; U+043F U+043E;
  U+0434 U+043B U+044F).
\<close>

definition STOPWORDS :: "pystr list" where
  "STOPWORDS =
     [ascii ''a'', ascii ''an'', ascii ''and'', ascii ''the'', ascii ''to'', ascii ''of'',
      ascii ''in'', ascii ''on'', ascii ''for'',
      [1080], [1074], [1085, 1072], [1089], [1087, 1086], [1076, 1083, 1103]]"

text \<open>
  \<open>Counter(words)\<close>: a dictionary in insertion order, so the counts are listed in the
  order in which each word was first met.
\<close>

fun bump :: "'a \<Rightarrow> ('a \<times> int) list \<Rightarrow> ('a \<times> int) list" where
  "bump w [] = [(w, 1)]"
| "bump w ((k, n) # kvs) = (if k = w then (k, n + 1) # kvs else (k, n) # bump w kvs)"

definition counter :: "'a list \<Rightarrow> ('a \<times> int) list" where
  "counter ws = foldl (\<lambda>c w. bump w c) [] ws"

text \<open>
  \<open>Counter.most_common(n)\<close> is \<open>heapq.nlargest(n, items, key=count)\<close>, which returns
  what \<open>sorted(items, key=count, reverse=True)[:n]\<close> returns: a stable sort by
  descending count, cut to \<open>n\<close> entries (none when \<open>n\<close> is not positive).
\<close>

definition most_common :: "('a \<times> int) list \<Rightarrow> int \<Rightarrow> ('a \<times> int) list" where
  "most_common c n = take (nat n) (sort_key (\<lambda>(w, k). - k) c)"

definition top_keywords :: "runtime \<Rightarrow> task list \<Rightarrow> int \<Rightarrow> (pystr \<times> int) list" where
  "top_keywords rt tasks limit =
     (let words = concat (map (\<lambda>t. findall (lower rt (title t)) @
                                     findall (lower rt (description t))) tasks);
          filtered = filter (\<lambda>word. word \<notin> set STOPWORDS \<and> length word > 2) words
      in most_common (counter filtered) limit)"

section \<open>async_jobs.py\<close>

text \<open>
  A coroutine is run to completion by one caller, so it is modelled by what it does in
  order: the trace lists every suspension \<open>await asyncio.sleep(delay)\<close> together with
  the task being handled.
\<close>

fun sync_loop :: "'d \<Rightarrow> 'a list \<Rightarrow> int \<Rightarrow> ('a \<times> 'd) list \<times> int" where
  "sync_loop delay [] synced = ([], synced)"
| "sync_loop delay (t # ts) synced =
     (let (ev, r) = sync_loop delay ts (synced + 1) in ((t, delay) # ev, r))"

definition simulate_sync :: "'a list \<Rightarrow> 'd \<Rightarrow> ('a \<times> 'd) list \<times> int" where
  "simulate_sync tasks delay = sync_loop delay tasks 0"

text \<open>
  The loop \<open>for start in range(0, len(tasks), batch_size)\<close> of \<open>sync_in_batches\<close>,
  for a positive step; the trace keeps the suspensions of each batch apart.
\<close>

function batch_loop ::
  "'a list \<Rightarrow> nat \<Rightarrow> 'd \<Rightarrow> nat \<Rightarrow> int \<Rightarrow> ('a \<times> 'd) list list \<times> int" where
  "batch_loop tasks batch_size delay start tot =
     (if batch_size = 0 \<or> length tasks \<le> start then ([], tot)
      else (let batch = take batch_size (drop start tasks);
                (ev, n) = simulate_sync batch delay;
                (evs, r) = batch_loop tasks batch_size delay (start + batch_size) (tot + n)
            in (ev # evs, r)))"
  by pat_completeness auto
termination
  by (relation "measure (\<lambda>(tasks, batch_size, delay, start, tot). length tasks - start)") auto

declare batch_loop.simps [simp del]

definition sync_in_batches ::
  "'a list \<Rightarrow> int \<Rightarrow> 'd \<Rightarrow> ('a \<times> 'd) list list \<times> (error + int)" where
  "sync_in_batches tasks batch_size delay =
     (if batch_size \<le> 0 then ([], Inl (ValueError (ascii ''batch_size must be > 0'')))
      else (let (evs, total) = batch_loop tasks (nat batch_size) delay 0 0
            in (evs, Inr total)))"

section \<open>Notions used to state the properties\<close>

text \<open>
  A task is valid when it is what the constructor can return: its title is trimmed and
  not empty and its priority lies in 1..5.
\<close>

definition valid_task :: "task \<Rightarrow> bool" where
  "valid_task t \<longleftrightarrow> strip (title t) = title t \<and> title t \<noteq> [] \<and> 1 \<le> priority t \<and> priority t \<le> 5"

text \<open>
  The optional keys of a stored element and the defaults the specification documents
  for them; \<open>now\<close> is the clock reading.
\<close>

definition optional_defaults :: "pystr \<Rightarrow> (pystr \<times> json) list" where
  "optional_defaults now =
     [(ascii ''description'', JStr []),
      (ascii ''priority'', JInt 3),
      (ascii ''done'', JBool False),
      (ascii ''tags'', JArr []),
      (ascii ''created_at'', JStr now)]"


text \<open>
  The flag of \<open>complete\<close> read as "whether a change occurred": the call returns, and
  its flag tells whether the collection the store holds after the call differs from
  the one it held before.
\<close>

definition returns_whether_changed :: "runtime \<Rightarrow> store \<Rightarrow> pystr \<Rightarrow> bool" where
  "returns_whether_changed rt st tid =
     (let (st', res) = complete_task rt st tid
      in res = Inr (load_tasks rt st' \<noteq> load_tasks rt st))"

text \<open>
  The tasks \<open>list\<close> is specified to keep, and the order it is specified to return
  them in: higher priority first, and among equal priorities the earlier
  \<open>created_at\<close> first.
\<close>

definition selected :: "runtime \<Rightarrow> bool \<Rightarrow> pystr option \<Rightarrow> task \<Rightarrow> bool" where
  "selected rt include_done query t \<longleftrightarrow>
     (include_done \<or> \<not> is_done t) \<and>
     (case query of
        None \<Rightarrow> True
      | Some q \<Rightarrow> q = [] \<or> sublist (lower rt q) (lower rt (title t)))"

definition before :: "task \<Rightarrow> task \<Rightarrow> bool" where
  "before a b \<longleftrightarrow>
     priority a > priority b \<or> (priority a = priority b \<and> created_at a \<le> created_at b)"

text \<open>
  Consecutive batches of at most \<open>n\<close> elements, in the original order.
\<close>

function chunks :: "nat \<Rightarrow> 'a list \<Rightarrow> 'a list list" where
  "chunks n xs = (if n = 0 \<or> xs = [] then [] else take n xs # chunks n (drop n xs))"
  by pat_completeness auto
termination
  by (relation "measure (\<lambda>(n, xs). length xs)") auto

declare chunks.simps [simp del]

text \<open>
  A maximal run of \<open>s\<close>: a non-empty stretch of code points of the word class that
  cannot be extended on either side.
\<close>

definition maximal_run :: "pystr \<Rightarrow> pystr \<Rightarrow> bool" where
  "maximal_run s tok \<longleftrightarrow>
     tok \<noteq> [] \<and> (\<forall>c\<in>set tok. is_word c) \<and>
     (\<exists>pre post. s = pre @ tok @ post \<and>
        (pre = [] \<or> \<not> is_word (last pre)) \<and> (post = [] \<or> \<not> is_word (hd post)))"

text \<open>
  The words in the order in which each is first met, the words that survive the
  filter of \<open>top_keywords\<close>, and every distinct word with the number of times it
  occurs, in first-met order.
\<close>

definition first_seen :: "'a list \<Rightarrow> 'a list" where
  "first_seen ws = rev (remdups (rev ws))"

definition kept_words :: "runtime \<Rightarrow> task list \<Rightarrow> pystr list" where
  "kept_words rt tasks =
     filter (\<lambda>w. w \<notin> set STOPWORDS \<and> 2 < length w)
       (concat (map (\<lambda>t. findall (lower rt (title t)) @ findall (lower rt (description t)))
                  tasks))"

definition tally :: "pystr list \<Rightarrow> (pystr \<times> int) list" where
  "tally ws = map (\<lambda>w. (w, int (count_list ws w))) (first_seen ws)"

text \<open>
  Exact rational arithmetic as one instance of the floating-point operations, with
  rounding to the nearest multiple of \<open>10\<^sup>-\<^sup>n\<close>, ties to even.
\<close>

definition round_half_even :: "rat \<Rightarrow> int" where
  "round_half_even y =
     (let f = \<lfloor>y\<rfloor>; r = y - of_int f
      in if r < 1 / 2 then f else if 1 / 2 < r then f + 1 else if even f then f else f + 1)"

definition exact_ops :: "rat float_ops" where
  "exact_ops =
     \<lparr>fzero = 0,
      true_div = (\<lambda>a b. of_int a / of_int b),
      times_int = (\<lambda>x n. x * of_int n),
      round_to = (\<lambda>x n. of_int (round_half_even (x * 10 ^ nat n)) / 10 ^ nat n)\<rparr>"

text \<open>Concrete inputs on which the definitions are evaluated.\<close>

definition task_learn :: task where
  "task_learn =
     \<lparr>task_id = ascii ''1'', title = ascii ''Learn Python'', description = [], priority = 5,
      is_done = False, tags = [ascii ''study''],
      created_at = ascii ''2024-05-01T10:00:00+00:00''\<rparr>"

definition task_write :: task where
  "task_write =
     \<lparr>task_id = ascii ''2'', title = ascii ''Write tests'', description = [], priority = 4,
      is_done = True, tags = [], created_at = ascii ''2024-05-01T11:00:00+00:00''\<rparr>"

definition sample_tasks :: "task list" where
  "sample_tasks = [task_learn, task_write]"

definition sample_store :: store where
  "sample_store = save_tasks sample_tasks"

definition task_a :: task where
  "task_a =
     \<lparr>task_id = ascii ''a'', title = ascii ''A'', description = [], priority = 2,
      is_done = False, tags = [], created_at = ascii ''2024-05-01T10:00:00+00:00''\<rparr>"

definition task_b :: task where
  "task_b =
     \<lparr>task_id = ascii ''b'', title = ascii ''B'', description = [], priority = 5,
      is_done = False, tags = [], created_at = ascii ''2024-05-01T10:00:01+00:00''\<rparr>"

definition three_tasks :: "task list" where
  "three_tasks = [task_write, task_learn, task_write]"

definition twelve :: "nat list" where
  "twelve = [0, 1, 2, 3, 4, 5, 6, 7, 8, 9, 10, 11]"

definition keyword_tasks :: "task list" where
  "keyword_tasks =
     [\<lparr>task_id = ascii ''1'', title = ascii ''Learn Python'',
       description = ascii ''Python async basics'', priority = 3, is_done = False, tags = [],
       created_at = []\<rparr>,
      \<lparr>task_id = ascii ''2'', title = ascii ''Write Python tests'',
       description = ascii ''tests and coverage'', priority = 3, is_done = False, tags = [],
       created_at = []\<rparr>]"

section \<open>Construction, decoding and the stored form\<close>


lemma last_dropWhile_eq: "dropWhile P xs \<noteq> [] \<Longrightarrow> last (dropWhile P xs) = last xs"
  by (induction xs) (auto split: if_splits)



lemma post_init_of_valid: "valid_task t \<Longrightarrow> post_init t = Inr t"
  by (auto simp: post_init_def valid_task_def Let_def)

lemma from_dict_to_dict: "valid_task t \<Longrightarrow> from_dict rt now (JObj (to_dict t)) = Inr t"
  by (cases t) (simp add: from_dict_def to_dict_def lookup_def dict_get_def ascii_def py_int_def py_str_def
      py_bool_def str_items_def comp_def post_init_of_valid)




lemma decode_items_to_dict:
  "\<forall>t\<in>set ts. valid_task t \<Longrightarrow> decode_items rt i (map (\<lambda>t. JObj (to_dict t)) ts) = Inr ts"
  by (induction ts arbitrary: i) (simp_all add: from_dict_to_dict)

lemma load_save: "\<forall>t\<in>set ts. valid_task t \<Longrightarrow> load_tasks rt (save_tasks ts) = Inr ts"
  by (simp add: load_tasks_def save_tasks_def decode_items_to_dict)

lemma sample_tasks_valid: "\<forall>t\<in>set sample_tasks. valid_task t"
  by (simp add: sample_tasks_def task_learn_def task_write_def valid_task_def strip_def
      isspace_def ascii_def)

lemma load_sample_store: "load_tasks rt sample_store = Inr sample_tasks"
  unfolding sample_store_def using sample_tasks_valid by (rule load_save)

lemma sample_tasks_nonempty: "sample_tasks \<noteq> []"
  by (simp add: sample_tasks_def)

section \<open>Storage: missing file and top-level shape\<close>

text \<open>
  C6. \<open>load\<close> returns the empty sequence, not an error, when the backing file does not
  exist; when the file holds a JSON document whose top-level value is not an array it
  fails with the format error, the \<open>ValueError\<close> with the message
  "storage file must contain JSON list".
\<close>

theorem load_missing_or_not_array:
  "load_tasks rt None = Inr [] \<and>
   (\<not> is_array v \<longrightarrow>
      load_tasks rt (Some (Doc v)) =
        Inl (ValueError (ascii ''storage file must contain JSON list'')))"
  by (cases v) (simp_all add: load_tasks_def)

theorem load_missing_or_not_array_witness:
  "\<not> is_array (JObj []) \<and>
   load_tasks sample_runtime None = Inr [] \<and>
   load_tasks sample_runtime (Some (Doc (JObj []))) =
     Inl (ValueError (ascii ''storage file must contain JSON list''))"
  using load_missing_or_not_array [of sample_runtime "JObj []"] by simp

section \<open>Storage: round trip\<close>



section \<open>Storage: missing keys of a stored element\<close>

lemma lookup_append_new:
  "lookup (d @ [(k, v)]) k' = (if k' = k then Some v else lookup d k')"
  by (simp add: lookup_def)

lemma dict_get_default_agree:
  assumes "(k, v) \<in> set (optional_defaults now)" and "lookup d k = None"
    and "(k', dflt) \<in> set (optional_defaults now)"
  shows "dict_get (d @ [(k, v)]) k' dflt = dict_get d k' dflt"
proof (cases "k' = k")
  case True
  with assms(1,3) have "dflt = v"
    by (auto simp: optional_defaults_def ascii_def)
  with True assms(2) show ?thesis
    by (simp add: dict_get_def lookup_append_new)
next
  case False
  then show ?thesis by (simp add: dict_get_def lookup_append_new)
qed

lemma from_dict_default:
  assumes "(k, v) \<in> set (optional_defaults now)" and "lookup d k = None"
  shows "from_dict rt now (JObj d) = from_dict rt now (JObj (d @ [(k, v)]))"
proof -
  have ne: "ascii ''id'' \<noteq> k" "ascii ''title'' \<noteq> k"
    using assms(1) by (auto simp: optional_defaults_def ascii_def)
  have l1: "lookup (d @ [(k, v)]) (ascii ''id'') = lookup d (ascii ''id'')"
    and l2: "lookup (d @ [(k, v)]) (ascii ''title'') = lookup d (ascii ''title'')"
    using ne by (simp_all add: lookup_append_new)
  have g1: "dict_get (d @ [(k, v)]) (ascii ''description'') (JStr []) =
            dict_get d (ascii ''description'') (JStr [])"
    by (rule dict_get_default_agree [OF assms]) (simp add: optional_defaults_def)
  have g2: "dict_get (d @ [(k, v)]) (ascii ''priority'') (JInt 3) =
            dict_get d (ascii ''priority'') (JInt 3)"
    by (rule dict_get_default_agree [OF assms]) (simp add: optional_defaults_def)
  have g3: "dict_get (d @ [(k, v)]) (ascii ''done'') (JBool False) =
            dict_get d (ascii ''done'') (JBool False)"
    by (rule dict_get_default_agree [OF assms]) (simp add: optional_defaults_def)
  have g4: "dict_get (d @ [(k, v)]) (ascii ''tags'') (JArr []) =
            dict_get d (ascii ''tags'') (JArr [])"
    by (rule dict_get_default_agree [OF assms]) (simp add: optional_defaults_def)
  have g5: "dict_get (d @ [(k, v)]) (ascii ''created_at'') (JStr now) =
            dict_get d (ascii ''created_at'') (JStr now)"
    by (rule dict_get_default_agree [OF assms]) (simp add: optional_defaults_def)
  show ?thesis
    unfolding from_dict_def json.case l1 l2 g1 g2 g3 g4 g5 by (rule refl)
qed

lemma from_dict_no_id:
  "lookup d (ascii ''id'') = None \<Longrightarrow> from_dict rt now (JObj d) = Inl (KeyError (ascii ''id''))"
  by (simp add: from_dict_def)

lemma from_dict_no_title:
  "lookup d (ascii ''id'') \<noteq> None \<Longrightarrow> lookup d (ascii ''title'') = None \<Longrightarrow>
   from_dict rt now (JObj d) = Inl (KeyError (ascii ''title''))"
  by (auto simp: from_dict_def)

lemma decode_items_append_fail:
  "decode_items rt i pre = Inr ts \<Longrightarrow> from_dict rt (clock rt (i + length pre)) x = Inl e \<Longrightarrow>
   decode_items rt i (pre @ x # post) = Inl e"
  by (induction pre arbitrary: i ts) (auto split: sum.splits)

lemma decode_items_fail_somewhere:
  assumes "\<And>now. isl (from_dict rt now x)"
  shows "isl (decode_items rt i (pre @ x # post))"
proof (induction pre arbitrary: i)
  case Nil
  obtain e where "from_dict rt (clock rt i) x = Inl e"
    using assms [of "clock rt i"] by (auto simp: isl_def)
  then show ?case by simp
next
  case (Cons a pre)
  show ?case
    using Cons.IH [of "Suc i"]
    by (cases "from_dict rt (clock rt i) a") (auto simp: isl_def split: sum.splits)
qed

text \<open>
  C10. Decoding a stored object that lacks the key "id" fails with the key-lookup
  error for "id"; one that has "id" and lacks "title" fails with the key-lookup error
  for "title". In both cases \<open>load\<close> of an array holding the object fails, and it
  fails with that same key-lookup error when the elements before it decode. Only the
  optional keys description, priority, done, tags and created_at are defaulted: when
  one of them is missing, decoding yields what it yields once the key is added with
  its documented default.
\<close>

theorem from_dict_missing_keys:
  "(lookup d (ascii ''id'') = None \<longrightarrow>
      from_dict rt now (JObj d) = Inl (KeyError (ascii ''id'')) \<and>
      isl (load_tasks rt (Some (Doc (JArr (pre @ JObj d # post))))) \<and>
      (decode_items rt 0 pre = Inr ts \<longrightarrow>
         load_tasks rt (Some (Doc (JArr (pre @ JObj d # post)))) =
           Inl (KeyError (ascii ''id'')))) \<and>
   (lookup d (ascii ''id'') \<noteq> None \<and> lookup d (ascii ''title'') = None \<longrightarrow>
      from_dict rt now (JObj d) = Inl (KeyError (ascii ''title'')) \<and>
      isl (load_tasks rt (Some (Doc (JArr (pre @ JObj d # post))))) \<and>
      (decode_items rt 0 pre = Inr ts \<longrightarrow>
         load_tasks rt (Some (Doc (JArr (pre @ JObj d # post)))) =
           Inl (KeyError (ascii ''title'')))) \<and>
   ((k, v) \<in> set (optional_defaults now) \<and> lookup d k = None \<longrightarrow>
      from_dict rt now (JObj d) = from_dict rt now (JObj (d @ [(k, v)])))"
proof (intro conjI impI)
  assume m: "lookup d (ascii ''id'') = None"
  then have f: "from_dict rt n (JObj d) = Inl (KeyError (ascii ''id''))" for n
    by (rule from_dict_no_id)
  show "from_dict rt now (JObj d) = Inl (KeyError (ascii ''id''))" by (rule f)
  have "isl (from_dict rt n (JObj d))" for n by (simp add: f)
  then show "isl (load_tasks rt (Some (Doc (JArr (pre @ JObj d # post)))))"
    by (simp add: load_tasks_def decode_items_fail_somewhere)
  assume "decode_items rt 0 pre = Inr ts"
  then show "load_tasks rt (Some (Doc (JArr (pre @ JObj d # post)))) =
      Inl (KeyError (ascii ''id''))"
    using f [of "clock rt (0 + length pre)"] decode_items_append_fail [of rt 0 pre ts]
    by (simp add: load_tasks_def)
next
  assume m: "lookup d (ascii ''id'') \<noteq> None \<and> lookup d (ascii ''title'') = None"
  then have f: "from_dict rt n (JObj d) = Inl (KeyError (ascii ''title''))" for n
    by (simp add: from_dict_no_title)
  show "from_dict rt now (JObj d) = Inl (KeyError (ascii ''title''))" by (rule f)
  have "isl (from_dict rt n (JObj d))" for n by (simp add: f)
  then show "isl (load_tasks rt (Some (Doc (JArr (pre @ JObj d # post)))))"
    by (simp add: load_tasks_def decode_items_fail_somewhere)
  assume "decode_items rt 0 pre = Inr ts"
  then show "load_tasks rt (Some (Doc (JArr (pre @ JObj d # post)))) =
      Inl (KeyError (ascii ''title''))"
    using f [of "clock rt (0 + length pre)"] decode_items_append_fail [of rt 0 pre ts]
    by (simp add: load_tasks_def)
next
  assume "(k, v) \<in> set (optional_defaults now) \<and> lookup d k = None"
  then show "from_dict rt now (JObj d) = from_dict rt now (JObj (d @ [(k, v)]))"
    by (simp add: from_dict_default)
qed

theorem from_dict_missing_keys_witness:
  "lookup [(ascii ''title'', JStr (ascii ''A''))] (ascii ''id'') = None \<and>
   from_dict sample_runtime [] (JObj [(ascii ''title'', JStr (ascii ''A''))]) =
     Inl (KeyError (ascii ''id'')) \<and>
   lookup [(ascii ''id'', JStr (ascii ''7''))] (ascii ''id'') \<noteq> None \<and>
   lookup [(ascii ''id'', JStr (ascii ''7''))] (ascii ''title'') = None \<and>
   from_dict sample_runtime [] (JObj [(ascii ''id'', JStr (ascii ''7''))]) =
     Inl (KeyError (ascii ''title'')) \<and>
   (ascii ''priority'', JInt 3) \<in> set (optional_defaults []) \<and>
   lookup [(ascii ''id'', JStr (ascii ''7'')), (ascii ''title'', JStr (ascii ''A''))]
     (ascii ''priority'') = None \<and>
   from_dict sample_runtime []
     (JObj [(ascii ''id'', JStr (ascii ''7'')), (ascii ''title'', JStr (ascii ''A''))]) =
   from_dict sample_runtime []
     (JObj ([(ascii ''id'', JStr (ascii ''7'')), (ascii ''title'', JStr (ascii ''A''))] @
            [(ascii ''priority'', JInt 3)])) \<and>
   decode_items sample_runtime 0 [JObj (to_dict task_learn)] = Inr [task_learn] \<and>
   load_tasks sample_runtime
     (Some (Doc (JArr ([JObj (to_dict task_learn)] @
                       JObj [(ascii ''title'', JStr (ascii ''A''))] # [])))) =
     Inl (KeyError (ascii ''id''))"
proof -
  have d: "decode_items sample_runtime 0 [JObj (to_dict task_learn)] = Inr [task_learn]"
    using decode_items_to_dict [of "[task_learn]" sample_runtime 0] sample_tasks_valid
    by (simp add: sample_tasks_def)
  have ne: "Inl (KeyError (ascii ''id'')) \<noteq> (Inl (KeyError (ascii ''title'')) :: error + task list)"
    by (simp add: ascii_def)
  show ?thesis
    using from_dict_missing_keys [where d = "[(ascii ''title'', JStr (ascii ''A''))]" and
          rt = sample_runtime and now = "[]" and k = "ascii ''priority''" and v = "JInt 3" and
          pre = "[JObj (to_dict task_learn)]" and post = "[]" and ts = "[task_learn]"]
      from_dict_missing_keys [where d = "[(ascii ''id'', JStr (ascii ''7''))]" and
          rt = sample_runtime and now = "[]" and k = "ascii ''priority''" and v = "JInt 3" and
          pre = "[]" and post = "[]"]
      from_dict_missing_keys [where
          d = "[(ascii ''id'', JStr (ascii ''7'')), (ascii ''title'', JStr (ascii ''A''))]" and
          rt = sample_runtime and now = "[]" and k = "ascii ''priority''" and v = "JInt 3" and
          pre = "[]" and post = "[]"]
      d
    by (simp add: lookup_def optional_defaults_def ascii_def)
qed

section \<open>Service: list\<close>

lemma list_tasks_eq:
  "load_tasks rt st = Inr tasks \<Longrightarrow>
   list_tasks rt st include_done query =
     (st, Inr (sort_key (\<lambda>item. (- priority item, created_at item))
                 (filter (selected rt include_done query) tasks)))"
  by (cases query; cases include_done)
     (simp_all add: list_tasks_def selected_def [abs_def] Let_def)

lemma sorted_before:
  "sorted_wrt before (sort_key (\<lambda>item. (- priority item, created_at item)) xs)"
proof -
  have "sorted (map (\<lambda>item. (- priority item, created_at item))
          (sort_key (\<lambda>item. (- priority item, created_at item)) xs))"
    by (rule sorted_sort_key)
  then have "sorted_wrt (\<lambda>a b. (- priority a, created_at a) \<le> (- priority b, created_at b))
          (sort_key (\<lambda>item. (- priority item, created_at item)) xs)"
    by (simp add: sorted_map)
  then show ?thesis
    by (rule sorted_wrt_mono_rel [rotated]) (auto simp: before_def)
qed

text \<open>
  C1. \<open>list\<close> never changes the store. When the store loads it returns the loaded
  tasks that are selected (not done unless \<open>include_done\<close>; and, for a non-empty
  query, with the lower-cased query contained in the lower-cased title), each as
  often as it is loaded, sorted by descending priority and then ascending
  \<open>created_at\<close>, tasks with equal priority and \<open>created_at\<close> keeping the order in which
  they were loaded.
\<close>

theorem list_tasks_filters_and_sorts:
  "fst (list_tasks rt st include_done query) = st \<and>
   (load_tasks rt st = Inr tasks \<longrightarrow>
      (\<exists>result. snd (list_tasks rt st include_done query) = Inr result \<and>
         mset result = mset (filter (selected rt include_done query) tasks) \<and>
         sorted_wrt before result \<and>
         (\<forall>p c. filter (\<lambda>t. priority t = p \<and> created_at t = c) result =
                filter (\<lambda>t. priority t = p \<and> created_at t = c)
                  (filter (selected rt include_done query) tasks))))"
proof (intro conjI impI)
  show "fst (list_tasks rt st include_done query) = st"
    by (auto simp: list_tasks_def Let_def split: sum.splits)
next
  assume l: "load_tasks rt st = Inr tasks"
  let ?key = "\<lambda>item. (- priority item, created_at item)"
  let ?sel = "filter (selected rt include_done query) tasks"
  have stable: "filter (\<lambda>t. priority t = p \<and> created_at t = c) (sort_key ?key ?sel) =
                filter (\<lambda>t. priority t = p \<and> created_at t = c) ?sel" for p c
    using sort_key_stable [of ?key "(- p, c)" ?sel] by simp
  show "\<exists>result. snd (list_tasks rt st include_done query) = Inr result \<and>
         mset result = mset ?sel \<and> sorted_wrt before result \<and>
         (\<forall>p c. filter (\<lambda>t. priority t = p \<and> created_at t = c) result =
                filter (\<lambda>t. priority t = p \<and> created_at t = c) ?sel)"
    using stable by (simp add: list_tasks_eq [OF l] sorted_before)
qed

theorem list_tasks_filters_and_sorts_witness:
  "load_tasks sample_runtime sample_store = Inr sample_tasks \<and>
   fst (list_tasks sample_runtime sample_store False (Some (ascii ''PYTHON''))) = sample_store \<and>
   (\<exists>result. snd (list_tasks sample_runtime sample_store False (Some (ascii ''PYTHON''))) =
        Inr result \<and>
      mset result =
        mset (filter (selected sample_runtime False (Some (ascii ''PYTHON''))) sample_tasks) \<and>
      sorted_wrt before result \<and>
      (\<forall>p c. filter (\<lambda>t. priority t = p \<and> created_at t = c) result =
             filter (\<lambda>t. priority t = p \<and> created_at t = c)
               (filter (selected sample_runtime False (Some (ascii ''PYTHON''))) sample_tasks)))"
  using list_tasks_filters_and_sorts [where rt = sample_runtime and st = sample_store and
        include_done = False and query = "Some (ascii ''PYTHON'')" and tasks = sample_tasks]
    load_sample_store [of sample_runtime]
  by blast

text \<open>
  On the sample store: everything is listed in priority order; the query is matched
  without regard to case; a task added later with a higher priority comes first.
\<close>

lemma list_tasks_sample_all:
  "list_tasks sample_runtime sample_store True None =
     (sample_store, Inr [task_learn, task_write])"
  by (simp add: list_tasks_eq [OF load_sample_store] selected_def sample_tasks_def
      task_learn_def task_write_def)

lemma list_tasks_sample_query:
  "list_tasks sample_runtime sample_store False (Some (ascii ''PYTHON'')) =
     (sample_store, Inr [task_learn])"
  by (simp add: list_tasks_eq [OF load_sample_store] selected_def sample_tasks_def
      task_learn_def task_write_def sample_runtime_def lower_cp_def ascii_def
      sublist_code prefix_code)

lemma list_tasks_scenario:
  "list_tasks sample_runtime (save_tasks [task_a, task_b]) True None =
     (save_tasks [task_a, task_b], Inr [task_b, task_a])"
proof -
  have "\<forall>t\<in>set [task_a, task_b]. valid_task t"
    by (simp add: task_a_def task_b_def valid_task_def strip_def isspace_def ascii_def)
  then have "load_tasks sample_runtime (save_tasks [task_a, task_b]) = Inr [task_a, task_b]"
    by (rule load_save)
  then show ?thesis
    by (simp add: list_tasks_eq selected_def task_a_def task_b_def)
qed

section \<open>Service: complete\<close>



lemma valid_task_done: "valid_task t \<Longrightarrow> valid_task (t\<lparr>is_done := b\<rparr>)"
  by (simp add: valid_task_def)


text \<open>On a task that is still open the two readings of the flag agree.\<close>

lemma returns_whether_changed_open:
  "returns_whether_changed sample_runtime sample_store (ascii ''1'')"
proof -
  have l: "load_tasks sample_runtime sample_store = Inr [task_learn, task_write]"
    using load_sample_store [of sample_runtime] by (simp add: sample_tasks_def)
  have m: "mark_first (ascii ''1'') [task_learn, task_write] =
             ([task_learn\<lparr>is_done := True\<rparr>, task_write], True)"
    by (simp add: task_learn_def task_write_def ascii_def)
  have v: "\<forall>t\<in>set [task_learn\<lparr>is_done := True\<rparr>, task_write]. valid_task t"
    using sample_tasks_valid by (simp add: sample_tasks_def valid_task_done)
  have c: "complete_task sample_runtime sample_store (ascii ''1'') =
             (save_tasks [task_learn\<lparr>is_done := True\<rparr>, task_write], Inr True)"
    unfolding complete_task_def l by (simp add: m del: mark_first.simps)
  have n: "task_learn\<lparr>is_done := True\<rparr> \<noteq> task_learn"
    by (simp add: task_learn_def)
  show ?thesis
    by (simp add: returns_whether_changed_def c l load_save [OF v] n)
qed



section \<open>Service: delete\<close>




section \<open>Service: add\<close>



section \<open>Completion rate and stats\<close>

lemma sum_ones: "sum_list (map (\<lambda>t. 1) xs) = int (length xs)"
  by (induction xs) simp_all

text \<open>
  C9. Whatever the floating-point operations are, \<open>completion_rate\<close> is \<open>0.0\<close> on the
  empty collection and \<open>round(done / total * 100, 2)\<close> on a non-empty one, where
  \<open>done\<close> counts the done tasks and \<open>total\<close> all tasks; and on a store that loads,
  \<open>stats\<close> leaves the store as it is and returns that same rate together with the
  total, done and open counts, with total = done + open.
\<close>

theorem completion_rate_and_stats:
  "completion_rate fl [] = fzero fl \<and>
   (tasks \<noteq> [] \<longrightarrow>
      completion_rate fl tasks =
        round_to fl
          (times_int fl (true_div fl (int (length (filter is_done tasks))) (int (length tasks)))
             100) 2) \<and>
   (load_tasks rt st = Inr tasks \<longrightarrow>
      (\<exists>r. stats rt fl st = (st, Inr r) \<and>
         stats_completion_rate r = completion_rate fl tasks \<and>
         stats_total r = int (length tasks) \<and>
         stats_done r = int (length (filter is_done tasks)) \<and>
         stats_open r = int (length (filter (\<lambda>t. \<not> is_done t) tasks)) \<and>
         stats_total r = stats_done r + stats_open r))"
proof (intro conjI impI)
  show "completion_rate fl [] = fzero fl" by (simp add: completion_rate_def)
next
  assume "tasks \<noteq> []"
  then show "completion_rate fl tasks =
        round_to fl
          (times_int fl (true_div fl (int (length (filter is_done tasks))) (int (length tasks)))
             100) 2"
    by (simp add: completion_rate_def sum_ones)
next
  assume l: "load_tasks rt st = Inr tasks"
  define r where "r =
     \<lparr>stats_total = int (length tasks),
      stats_done = int (length (filter is_done tasks)),
      stats_open = int (length tasks) - int (length (filter is_done tasks)),
      stats_completion_rate = completion_rate fl tasks\<rparr>"
  have "stats rt fl st = (st, Inr r)"
    by (simp add: stats_def l r_def completion_rate_def sum_ones Let_def)
  moreover have "stats_open r = int (length (filter (\<lambda>t. \<not> is_done t) tasks))"
    using sum_length_filter_compl [of is_done tasks] by (simp add: r_def)
  moreover have "stats_total r = stats_done r + stats_open r"
    by (simp add: r_def)
  ultimately show "\<exists>r. stats rt fl st = (st, Inr r) \<and>
         stats_completion_rate r = completion_rate fl tasks \<and>
         stats_total r = int (length tasks) \<and>
         stats_done r = int (length (filter is_done tasks)) \<and>
         stats_open r = int (length (filter (\<lambda>t. \<not> is_done t) tasks)) \<and>
         stats_total r = stats_done r + stats_open r"
    by (intro exI [of _ r]) (simp add: r_def)
qed

theorem completion_rate_and_stats_witness:
  "sample_tasks \<noteq> [] \<and>
   load_tasks sample_runtime sample_store = Inr sample_tasks \<and>
   completion_rate exact_ops sample_tasks =
     round_to exact_ops
       (times_int exact_ops
          (true_div exact_ops (int (length (filter is_done sample_tasks)))
             (int (length sample_tasks))) 100) 2 \<and>
   (\<exists>r. stats sample_runtime exact_ops sample_store = (sample_store, Inr r) \<and>
      stats_completion_rate r = completion_rate exact_ops sample_tasks \<and>
      stats_total r = int (length sample_tasks) \<and>
      stats_done r = int (length (filter is_done sample_tasks)) \<and>
      stats_open r = int (length (filter (\<lambda>t. \<not> is_done t) sample_tasks)) \<and>
      stats_total r = stats_done r + stats_open r)"
  using completion_rate_and_stats [where fl = exact_ops and tasks = sample_tasks and
      rt = sample_runtime and st = sample_store]
    load_sample_store [of sample_runtime] sample_tasks_nonempty
  by blast

text \<open>With exact arithmetic: two done tasks of three give 66.67.\<close>

lemma completion_rate_two_of_three: "completion_rate exact_ops three_tasks = 6667 / 100"
  by code_simp

lemma stats_sample_store:
  "stats sample_runtime exact_ops sample_store =
     (sample_store,
      Inr \<lparr>stats_total = 2, stats_done = 1, stats_open = 1, stats_completion_rate = 50\<rparr>)"
  by (simp add: stats_def load_sample_store sample_tasks_def task_learn_def task_write_def
      exact_ops_def round_half_even_def)

section \<open>Batch synchronisation\<close>

lemma sync_loop_eq:
  "sync_loop delay ts k = (map (\<lambda>t. (t, delay)) ts, k + int (length ts))"
  by (induction ts arbitrary: k) simp_all

lemma simulate_sync_eq:
  "simulate_sync ts delay = (map (\<lambda>t. (t, delay)) ts, int (length ts))"
  by (simp add: simulate_sync_def sync_loop_eq)

lemma batch_loop_eq:
  "0 < n \<Longrightarrow>
   batch_loop tasks n delay start tot =
     (map (map (\<lambda>t. (t, delay))) (chunks n (drop start tasks)),
      tot + int (length tasks - start))"
proof (induction tasks n delay start tot rule: batch_loop.induct)
  case (1 tasks n delay start tot)
  show ?case
  proof (cases "length tasks \<le> start")
    case True
    then show ?thesis
      by (subst batch_loop.simps, subst chunks.simps) simp
  next
    case False
    have ih: "batch_loop tasks n delay (start + n) (tot + int (length (take n (drop start tasks)))) =
      (map (map (\<lambda>t. (t, delay))) (chunks n (drop (start + n) tasks)),
       tot + int (length (take n (drop start tasks))) + int (length tasks - (start + n)))"
      using "1.IH" [OF _ refl simulate_sync_eq [symmetric] refl] False "1.prems" by simp
    have len: "tot + int (length (take n (drop start tasks))) + int (length tasks - (start + n)) =
        tot + int (length tasks - start)"
      using False by (simp add: min_def)
    have step: "batch_loop tasks n delay start tot =
        (map (\<lambda>t. (t, delay)) (take n (drop start tasks)) #
           map (map (\<lambda>t. (t, delay))) (chunks n (drop (start + n) tasks)),
         tot + int (length (take n (drop start tasks))) + int (length tasks - (start + n)))"
      using False "1.prems"
      by (subst batch_loop.simps) (simp add: simulate_sync_eq ih Let_def del: length_take length_drop)
    have c: "chunks n (drop start tasks) =
        take n (drop start tasks) # chunks n (drop (start + n) tasks)"
      using False "1.prems" by (subst chunks.simps) (simp add: add.commute)
    show ?thesis
      unfolding step c len by simp
  qed
qed

lemma concat_chunks: "0 < n \<Longrightarrow> concat (chunks n xs) = xs"
proof (induction n xs rule: chunks.induct)
  case (1 n xs)
  then show ?case by (subst chunks.simps) auto
qed

lemma chunks_bounds: "b \<in> set (chunks n xs) \<Longrightarrow> b \<noteq> [] \<and> length b \<le> n"
proof (induction n xs rule: chunks.induct)
  case (1 n xs)
  from "1.prems" show ?case
    by (subst (asm) chunks.simps) (use "1.IH" in \<open>auto split: if_splits\<close>)
qed

lemma chunks_full: "Suc i < length (chunks n xs) \<Longrightarrow> length (chunks n xs ! i) = n"
proof (induction n xs arbitrary: i rule: chunks.induct)
  case (1 n xs)
  show ?case
  proof (cases "n = 0 \<or> xs = []")
    case True
    with "1.prems" show ?thesis by (subst (asm) chunks.simps) simp
  next
    case False
    then have c: "chunks n xs = take n xs # chunks n (drop n xs)"
      by (subst chunks.simps) simp
    show ?thesis
    proof (cases i)
      case 0
      with "1.prems" c have "chunks n (drop n xs) \<noteq> []" by auto
      then have "drop n xs \<noteq> []" by (subst (asm) chunks.simps) (auto split: if_splits)
      then show ?thesis using 0 c by (simp add: min_def)
    next
      case (Suc j)
      with "1.prems" c have "Suc j < length (chunks n (drop n xs))" by simp
      then have "length (chunks n (drop n xs) ! j) = n" using "1.IH" False by simp
      then show ?thesis using Suc c by simp
    qed
  qed
qed

lemma sync_twelve:
  "sync_in_batches twelve 5 (0 :: nat) =
     ([[(0, 0), (1, 0), (2, 0), (3, 0), (4, 0)],
       [(5, 0), (6, 0), (7, 0), (8, 0), (9, 0)],
       [(10, 0), (11, 0)]], Inr 12)"
  by code_simp

text \<open>
  C7. \<open>sync_in_batches\<close> fails exactly when \<open>batch_size \<le> 0\<close>; it then fails with a
  validation error whose message contains "batch_size", before any suspension. For a
  positive \<open>batch_size\<close> it suspends once per task, batch by batch: the batches are
  non-empty, hold at most \<open>batch_size\<close> tasks each and exactly \<open>batch_size\<close> each but
  for the last, and concatenated they are the input in its order; the count returned
  is the number of input tasks.
\<close>

theorem sync_in_batches_counts_all:
  "(isl (snd (sync_in_batches tasks batch_size delay)) \<longleftrightarrow> batch_size \<le> 0) \<and>
   (batch_size \<le> 0 \<longrightarrow>
      (\<exists>msg. sync_in_batches tasks batch_size delay = ([], Inl (ValueError msg)) \<and>
         sublist (ascii ''batch_size'') msg)) \<and>
   (0 < batch_size \<longrightarrow>
      (\<exists>batches.
         sync_in_batches tasks batch_size delay =
           (map (map (\<lambda>t. (t, delay))) batches, Inr (int (length tasks))) \<and>
         concat batches = tasks \<and>
         (\<forall>b\<in>set batches. b \<noteq> [] \<and> int (length b) \<le> batch_size) \<and>
         (\<forall>i. Suc i < length batches \<longrightarrow> int (length (batches ! i)) = batch_size)))"
proof -
  have msg: "sublist (ascii ''batch_size'') (ascii ''batch_size must be > 0'')"
    by (simp add: ascii_def sublist_code prefix_code)
  have neg: "sync_in_batches tasks batch_size delay =
      ([], Inl (ValueError (ascii ''batch_size must be > 0'')))" if "batch_size \<le> 0"
    using that by (simp add: sync_in_batches_def)
  have pos: "sync_in_batches tasks batch_size delay =
      (map (map (\<lambda>t. (t, delay))) (chunks (nat batch_size) tasks), Inr (int (length tasks)))"
    if "0 < batch_size"
    using that by (simp add: sync_in_batches_def batch_loop_eq)
  have bounds: "\<forall>b\<in>set (chunks (nat batch_size) tasks). b \<noteq> [] \<and> int (length b) \<le> batch_size"
    if "0 < batch_size"
    using that chunks_bounds [of _ "nat batch_size" tasks] by fastforce
  have full: "\<forall>i. Suc i < length (chunks (nat batch_size) tasks) \<longrightarrow>
      int (length (chunks (nat batch_size) tasks ! i)) = batch_size" if "0 < batch_size"
    using that chunks_full [of _ "nat batch_size" tasks] by simp
  show ?thesis
  proof (intro conjI impI)
    show "isl (snd (sync_in_batches tasks batch_size delay)) \<longleftrightarrow> batch_size \<le> 0"
      using neg pos by (cases "batch_size \<le> 0") simp_all
  next
    assume "batch_size \<le> 0"
    then show "\<exists>msg. sync_in_batches tasks batch_size delay = ([], Inl (ValueError msg)) \<and>
         sublist (ascii ''batch_size'') msg"
      using neg msg by blast
  next
    assume p: "0 < batch_size"
    show "\<exists>batches.
         sync_in_batches tasks batch_size delay =
           (map (map (\<lambda>t. (t, delay))) batches, Inr (int (length tasks))) \<and>
         concat batches = tasks \<and>
         (\<forall>b\<in>set batches. b \<noteq> [] \<and> int (length b) \<le> batch_size) \<and>
         (\<forall>i. Suc i < length batches \<longrightarrow> int (length (batches ! i)) = batch_size)"
      using pos [OF p] bounds [OF p] full [OF p] concat_chunks [of "nat batch_size" tasks] p
      by (intro exI [of _ "chunks (nat batch_size) tasks"]) simp
  qed
qed

theorem sync_in_batches_counts_all_witness:
  "(0 :: int) \<le> 0 \<and>
   (\<exists>msg. sync_in_batches ([] :: nat list) 0 (0 :: nat) = ([], Inl (ValueError msg)) \<and>
      sublist (ascii ''batch_size'') msg) \<and>
   (0 :: int) < 5 \<and>
   (\<exists>batches.
      sync_in_batches twelve 5 (0 :: nat) =
        (map (map (\<lambda>t. (t, 0))) batches, Inr 12) \<and>
      concat batches = twelve \<and>
      (\<forall>b\<in>set batches. b \<noteq> [] \<and> int (length b) \<le> 5) \<and>
      (\<forall>i. Suc i < length batches \<longrightarrow> int (length (batches ! i)) = 5))"
proof -
  have l: "int (length twelve) = 12" by (simp add: twelve_def)
  show ?thesis
    using sync_in_batches_counts_all [where tasks = "[] :: nat list" and batch_size = 0 and
        delay = "0 :: nat"]
      sync_in_batches_counts_all [where tasks = twelve and batch_size = 5 and
        delay = "0 :: nat"]
    unfolding l by simp
qed

section \<open>Keywords\<close>

lemma findall_word_run:
  assumes "w \<noteq> []" and "\<forall>c\<in>set w. is_word c" and "post = [] \<or> \<not> is_word (hd post)"
  shows "findall (w @ post) = w # findall post"
proof -
  obtain c w' where w: "w = c # w'" using assms(1) by (cases w) auto
  have t: "takeWhile is_word post = []" using assms(3) by (simp add: takeWhile_eq_Nil_iff)
  have d: "dropWhile is_word post = post" using assms(3) by (simp add: dropWhile_eq_self_iff)
  show ?thesis using assms(2) by (simp add: w t d)
qed

lemma findall_append:
  "pre = [] \<or> \<not> is_word (last pre) \<Longrightarrow> findall (pre @ post) = findall pre @ findall post"
proof (induction pre rule: findall.induct)
  case 1
  then show ?case by simp
next
  case (2 c cs)
  show ?case
  proof (cases "is_word c")
    case False
    with 2 show ?thesis by (cases "cs = []") auto
  next
    case True
    with "2.prems" have cs: "cs \<noteq> []" "\<not> is_word (last cs)" by (auto split: if_splits)
    then have ex: "last cs \<in> set cs" by simp
    have t: "takeWhile is_word (cs @ post) = takeWhile is_word cs"
      using ex cs(2) by (rule takeWhile_append1)
    have d: "dropWhile is_word (cs @ post) = dropWhile is_word cs @ post"
      using ex cs(2) by (rule dropWhile_append1)
    have ne: "dropWhile is_word cs \<noteq> []"
      using ex cs(2) by (auto simp: dropWhile_eq_Nil_conv)
    then have "\<not> is_word (last (dropWhile is_word cs))"
      using cs(2) by (simp add: last_dropWhile_eq)
    then have "findall (dropWhile is_word cs @ post) =
        findall (dropWhile is_word cs) @ findall post"
      using "2.IH"(1) [OF True] by simp
    then show ?thesis using True by (simp add: t d)
  qed
qed

lemma maximal_runI:
  "tok \<noteq> [] \<Longrightarrow> \<forall>c\<in>set tok. is_word c \<Longrightarrow> s = pre @ tok @ post \<Longrightarrow>
   pre = [] \<or> \<not> is_word (last pre) \<Longrightarrow> post = [] \<or> \<not> is_word (hd post) \<Longrightarrow>
   maximal_run s tok"
  unfolding maximal_run_def by blast

lemma maximal_runE:
  assumes "maximal_run s tok"
  obtains pre post where "tok \<noteq> []" "\<forall>c\<in>set tok. is_word c" "s = pre @ tok @ post"
    "pre = [] \<or> \<not> is_word (last pre)" "post = [] \<or> \<not> is_word (hd post)"
  using assms unfolding maximal_run_def by blast

lemma findall_sound: "tok \<in> set (findall s) \<Longrightarrow> maximal_run s tok"
proof (induction s rule: findall.induct)
  case 1
  then show ?case by simp
next
  case (2 c cs)
  show ?case
  proof (cases "is_word c")
    case False
    with 2 have "maximal_run cs tok" by simp
    then obtain pre post where p: "tok \<noteq> []" "\<forall>c\<in>set tok. is_word c" "cs = pre @ tok @ post"
      "pre = [] \<or> \<not> is_word (last pre)" "post = [] \<or> \<not> is_word (hd post)"
      by (rule maximal_runE)
    have a: "c # cs = (c # pre) @ tok @ post" using p(3) by simp
    have b: "c # pre = [] \<or> \<not> is_word (last (c # pre))" using False p(4) by auto
    show ?thesis by (rule maximal_runI [OF p(1,2) a b p(5)])
  next
    case True
    from "2.prems" True have "tok = takeWhile is_word (c # cs) \<or>
        tok \<in> set (findall (dropWhile is_word cs))" by simp
    then show ?thesis
    proof
      assume 1: "tok = takeWhile is_word (c # cs)"
      have a: "c # cs = [] @ tok @ dropWhile is_word (c # cs)"
        unfolding 1 by (simp only: append_Nil takeWhile_dropWhile_id)
      have b: "dropWhile is_word (c # cs) = [] \<or>
          \<not> is_word (hd (dropWhile is_word (c # cs)))"
        using hd_dropWhile [of is_word "c # cs"] by blast
      have c: "tok \<noteq> []" using 1 True by simp
      have d: "\<forall>x\<in>set tok. is_word x" unfolding 1 using set_takeWhileD by fast
      show ?thesis by (rule maximal_runI [OF c d a _ b]) simp
    next
      assume "tok \<in> set (findall (dropWhile is_word cs))"
      then have "maximal_run (dropWhile is_word cs) tok" using "2.IH"(1) [OF True] by simp
      then obtain pre post where p: "tok \<noteq> []" "\<forall>c\<in>set tok. is_word c"
        "dropWhile is_word cs = pre @ tok @ post"
        "pre = [] \<or> \<not> is_word (last pre)" "post = [] \<or> \<not> is_word (hd post)"
        by (rule maximal_runE)
      have pre: "pre \<noteq> []"
      proof
        assume e: "pre = []"
        have ne: "dropWhile is_word cs \<noteq> []" using p(1,3) by simp
        have "hd (dropWhile is_word cs) = hd tok" using p(1,3) e by simp
        moreover have "is_word (hd tok)" using p(1,2) by simp
        ultimately show False using hd_dropWhile [OF ne] by simp
      qed
      have "cs = takeWhile is_word cs @ dropWhile is_word cs" by simp
      then have "cs = takeWhile is_word cs @ pre @ tok @ post" unfolding p(3) .
      then have a: "c # cs = (c # takeWhile is_word cs @ pre) @ tok @ post" by simp
      have b: "c # takeWhile is_word cs @ pre = [] \<or>
          \<not> is_word (last (c # takeWhile is_word cs @ pre))"
        using pre p(4) by simp
      show ?thesis by (rule maximal_runI [OF p(1,2) a b p(5)])
    qed
  qed
qed

lemma findall_complete: "maximal_run s tok \<Longrightarrow> tok \<in> set (findall s)"
proof -
  assume "maximal_run s tok"
  then obtain pre post where p: "tok \<noteq> []" "\<forall>c\<in>set tok. is_word c" "s = pre @ tok @ post"
    "pre = [] \<or> \<not> is_word (last pre)" "post = [] \<or> \<not> is_word (hd post)"
    by (rule maximal_runE)
  have "findall s = findall pre @ tok # findall post"
    unfolding p(3) using findall_append [OF p(4)] findall_word_run [OF p(1,2,5)] by simp
  then show ?thesis by simp
qed

lemma findall_maximal_runs: "tok \<in> set (findall s) \<longleftrightarrow> maximal_run s tok"
  using findall_sound findall_complete by blast

lemma concat_findall: "concat (findall s) = filter is_word s"
proof (induction s rule: findall.induct)
  case 1
  then show ?case by simp
next
  case (2 c cs)
  show ?case
  proof (cases "is_word c")
    case False
    with 2 show ?thesis by simp
  next
    case True
    have f: "filter is_word (takeWhile is_word cs) = takeWhile is_word cs"
      unfolding filter_id_conv using set_takeWhileD by fast
    have "filter is_word cs = filter is_word (takeWhile is_word cs @ dropWhile is_word cs)"
      by simp
    also have "\<dots> = takeWhile is_word cs @ filter is_word (dropWhile is_word cs)"
      by (simp only: filter_append f)
    finally show ?thesis using True "2.IH"(1) by simp
  qed
qed

lemma bump_map:
  "distinct ks \<Longrightarrow>
   bump w (map (\<lambda>v. (v, f v)) ks) =
     (if w \<in> set ks then map (\<lambda>v. (v, if v = w then f v + 1 else f v)) ks
      else map (\<lambda>v. (v, f v)) ks @ [(w, 1)])"
  by (induction ks) auto

lemma first_seen_snoc:
  "first_seen (ws @ [w]) = (if w \<in> set ws then first_seen ws else first_seen ws @ [w])"
  by (simp add: first_seen_def)

lemma distinct_first_seen: "distinct (first_seen ws)"
  by (simp add: first_seen_def)

lemma set_first_seen: "set (first_seen ws) = set ws"
  by (simp add: first_seen_def)

lemma counter_snoc: "counter (ws @ [w]) = bump w (counter ws)"
  by (simp add: counter_def)

lemma counter_eq:
  "counter ws = map (\<lambda>w. (w, int (count_list ws w))) (first_seen ws)"
proof (induction ws rule: rev_induct)
  case Nil
  show ?case by (simp add: counter_def first_seen_def)
next
  case (snoc w ws)
  show ?case
  proof (cases "w \<in> set ws")
    case True
    then show ?thesis
      unfolding counter_snoc snoc.IH
      by (simp add: bump_map [OF distinct_first_seen] set_first_seen first_seen_snoc)
  next
    case False
    then show ?thesis
      unfolding counter_snoc snoc.IH
      by (auto simp: bump_map [OF distinct_first_seen] set_first_seen first_seen_snoc)
  qed
qed

lemma sorted_by_count:
  "sorted_wrt (\<lambda>a b. snd b \<le> snd a) (sort_key (\<lambda>(w, k). - k) (c :: ('a \<times> int) list))"
proof -
  have "sorted (map (\<lambda>(w, k). - k) (sort_key (\<lambda>(w, k). - k) c))"
    by (rule sorted_sort_key)
  then have "sorted_wrt (\<lambda>a b. (case a of (w, k) \<Rightarrow> - k) \<le> (case b of (w, k) \<Rightarrow> - k))
      (sort_key (\<lambda>(w, k). - k) c)"
    by (simp add: sorted_map)
  then show ?thesis
    by (rule sorted_wrt_mono_rel [rotated]) (auto split: prod.splits)
qed

lemma stable_by_count:
  "filter (\<lambda>p. snd p = n) (sort_key (\<lambda>(w, k). - k) (c :: ('a \<times> int) list)) =
   filter (\<lambda>p. snd p = n) c"
proof -
  have e: "(\<lambda>p. snd p = n) = (\<lambda>p :: 'a \<times> int. (case p of (w, k) \<Rightarrow> - k) = - n)"
    by (auto simp: fun_eq_iff)
  show ?thesis unfolding e by (rule sort_key_stable)
qed

lemma kept_words_iff:
  "w \<in> set (kept_words rt tasks) \<longleftrightarrow>
     w \<notin> set STOPWORDS \<and> 2 < length w \<and>
     (\<exists>t\<in>set tasks. maximal_run (lower rt (title t)) w \<or>
                     maximal_run (lower rt (description t)) w)"
  by (auto simp: kept_words_def findall_maximal_runs)

lemma top_keywords_sample:
  "top_keywords sample_runtime keyword_tasks 3 =
     [(ascii ''python'', 3), (ascii ''tests'', 2), (ascii ''learn'', 1)]"
  by code_simp

text \<open>
  C8. \<open>top_keywords\<close> returns the first \<open>limit\<close> entries of a ranking of the kept
  words: the ranking lists every distinct kept word once with the number of its
  occurrences, by descending count, words of equal count in the order in which they
  were first met. Every returned word is outside the stop-word set, longer than two
  code points, and a maximal run of word-class code points of the lower-cased title
  or of the lower-cased description of some task; since the text is lower-cased
  before it is split, this holds whatever the case of the input.
\<close>

theorem top_keywords_ranking:
  "(\<exists>ranked.
      top_keywords rt tasks limit = take (nat limit) ranked \<and>
      mset ranked = mset (tally (kept_words rt tasks)) \<and>
      sorted_wrt (\<lambda>a b. snd b \<le> snd a) ranked \<and>
      (\<forall>n. filter (\<lambda>p. snd p = n) ranked =
            filter (\<lambda>p. snd p = n) (tally (kept_words rt tasks)))) \<and>
   (\<forall>(w, n) \<in> set (top_keywords rt tasks limit).
      w \<notin> set STOPWORDS \<and> 2 < length w \<and>
      n = int (count_list (kept_words rt tasks) w) \<and> 0 < n \<and>
      (\<exists>t\<in>set tasks. maximal_run (lower rt (title t)) w \<or>
                      maximal_run (lower rt (description t)) w))"
proof -
  let ?kept = "kept_words rt tasks"
  let ?ranked = "sort_key (\<lambda>(w, k). - k) (tally ?kept)"
  have top: "top_keywords rt tasks limit = take (nat limit) ?ranked"
    by (simp add: top_keywords_def most_common_def counter_eq tally_def kept_words_def Let_def)
  have first: "\<exists>ranked.
      top_keywords rt tasks limit = take (nat limit) ranked \<and>
      mset ranked = mset (tally ?kept) \<and>
      sorted_wrt (\<lambda>a b. snd b \<le> snd a) ranked \<and>
      (\<forall>n. filter (\<lambda>p. snd p = n) ranked = filter (\<lambda>p. snd p = n) (tally ?kept))"
    using top sorted_by_count [of "tally ?kept"] stable_by_count [of _ "tally ?kept"]
    by (intro exI [of _ ?ranked]) simp
  have second: "w \<notin> set STOPWORDS \<and> 2 < length w \<and>
      n = int (count_list ?kept w) \<and> 0 < n \<and>
      (\<exists>t\<in>set tasks. maximal_run (lower rt (title t)) w \<or>
                      maximal_run (lower rt (description t)) w)"
    if "(w, n) \<in> set (top_keywords rt tasks limit)" for w n
  proof -
    from that have "(w, n) \<in> set ?ranked" unfolding top by (rule in_set_takeD)
    then have "(w, n) \<in> set (tally ?kept)" by simp
    then have w: "w \<in> set ?kept" and n: "n = int (count_list ?kept w)"
      by (auto simp: tally_def set_first_seen)
    from w have "count_list ?kept w \<noteq> 0" unfolding count_list_0_iff by simp
    then have "0 < count_list ?kept w" by simp
    then show ?thesis using w n by (simp add: kept_words_iff)
  qed
  show ?thesis using first second by blast
qed

theorem top_keywords_ranking_witness:
  "(ascii ''python'', 3) \<in> set (top_keywords sample_runtime keyword_tasks 3) \<and>
   ascii ''python'' \<notin> set STOPWORDS \<and> 2 < length (ascii ''python'') \<and>
   3 = int (count_list (kept_words sample_runtime keyword_tasks) (ascii ''python'')) \<and>
   (\<exists>t\<in>set keyword_tasks.
      maximal_run (lower sample_runtime (title t)) (ascii ''python'') \<or>
      maximal_run (lower sample_runtime (description t)) (ascii ''python''))"
proof -
  have m: "(ascii ''python'', 3) \<in> set (top_keywords sample_runtime keyword_tasks 3)"
    unfolding top_keywords_sample by simp
  show ?thesis
    using top_keywords_ranking [where rt = sample_runtime and tasks = keyword_tasks and
        limit = 3] m
    by fastforce
qed

text \<open>Upper-case stop words, and Russian ones, are dropped like lower-case ones.\<close>

lemma top_keywords_ignores_case:
  "top_keywords sample_runtime
     [\<lparr>task_id = ascii ''1'', title = ascii ''THE And For PYTHON on it'',
       description = [1044, 1083, 1103, 32, 1053, 1040], priority = 3, is_done = False,
       tags = [], created_at = []\<rparr>] 5 =
   [(ascii ''python'', 1)]"
  by code_simp

end
